theory Spec2Isabelle
  imports Main "HOL-Library.Sublist" "HOL-Library.Multiset" "HOL-Library.AList"
begin

chapter \<open>The constellations graph engine of sgagraph\<close>

text \<open>
  A shallow embedding of \<^verbatim>\<open>src/components/constellations/data.ts\<close> and of the proof-mode and
  live-replay actions of \<^verbatim>\<open>src/components/ConstellationsGraph.tsx\<close>.

  Conventions. A JavaScript string is a \<^typ>\<open>string\<close>; an optional field
  (\<^verbatim>\<open>undefined\<close> or \<^verbatim>\<open>null\<close>) is an \<^typ>\<open>'a option\<close>; the numbers that occur (line and
  column numbers, order indices, depths) are integers and are modelled by \<^typ>\<open>int\<close>.
  A \<^verbatim>\<open>Set<string>\<close> is the list of its members in insertion order, a \<^verbatim>\<open>Map\<close> is the list
  of its entries in insertion order, with one entry per key. Objects are mutated in place
  by the source; the model passes the state and returns the new one. Node and edge objects
  are decoded from JSON, so no object occurs twice in an array.

  \<^verbatim>\<open>String.prototype.localeCompare\<close> depends on the host's collation. It is a parameter
  \<open>localeCompare\<close> of every function that reaches it, and every statement below holds for
  all values of that parameter.
\<close>

section \<open>Edge keys\<close>

text \<open>\<^verbatim>\<open>export function edgeKey(s: string, t: string) { return `${s}=>${t}`; }\<close>\<close>

definition edgeKey :: "string \<Rightarrow> string \<Rightarrow> string" where
  "edgeKey s t = s @ ''=>'' @ t"

lemma arrow_prefix_split:
  assumes "\<not> sublist ''=>'' s2" and "''=>'' @ t1 = s2 @ ''=>'' @ t2"
  shows "s2 = []"
proof (cases s2)
  case Nil
  then show ?thesis by simp
next
  case (Cons c r)
  show ?thesis
  proof (cases r)
    case Nil
    with Cons assms(2) show ?thesis by simp
  next
    case (Cons d r')
    with \<open>s2 = c # r\<close> assms(2) have "s2 = ''=>'' @ r'" by simp
    with assms(1) show ?thesis by simp
  qed
qed

lemma not_sublist_tl: "\<not> sublist p (c # s) \<Longrightarrow> \<not> sublist p s"
  by (simp add: sublist_Cons_right)

lemma edgeKey_split:
  "\<not> sublist ''=>'' s1 \<Longrightarrow> \<not> sublist ''=>'' s2 \<Longrightarrow>
   s1 @ ''=>'' @ t1 = s2 @ ''=>'' @ t2 \<Longrightarrow> s1 = s2"
proof (induction s1 arbitrary: s2)
  case Nil
  from Nil(2) have "s2 = []"
    by (rule arrow_prefix_split) (use Nil(3) in simp)
  then show ?case by simp
next
  case (Cons c s1)
  show ?case
  proof (cases s2)
    case Nil
    have "c # s1 = []"
      by (rule arrow_prefix_split[OF Cons.prems(1), of t2 t1]) (use Cons.prems(3) Nil in simp)
    then show ?thesis by simp
  next
    case (Cons d r)
    with Cons.prems(3) have cd: "c = d" and tl: "s1 @ ''=>'' @ t1 = r @ ''=>'' @ t2"
      by simp_all
    have n1: "\<not> sublist ''=>'' s1" using Cons.prems(1) by (rule not_sublist_tl)
    have n2: "\<not> sublist ''=>'' r" using Cons.prems(2) unfolding Cons by (rule not_sublist_tl)
    have "s1 = r" using n1 n2 tl by (rule Cons.IH)
    with cd Cons show ?thesis by simp
  qed
qed

text \<open>
  The precondition is needed: once an id contains the delimiter, two different pairs share
  a key.
\<close>

lemma edgeKey_collision_with_delimiter:
  "edgeKey ''a=>b'' ''c'' = edgeKey ''a'' ''b=>c'' \<and> ''a=>b'' \<noteq> ''a''"
  by (simp add: edgeKey_def)

text \<open>
  Claim C10. For ids \<open>s1\<close>, \<open>t1\<close>, \<open>s2\<close>, \<open>t2\<close> none of which contains the substring
  \<^verbatim>\<open>=>\<close>, equal edge keys come from equal (source, target) pairs: \<open>edgeKey\<close> is injective on
  delimiter-free ids.
\<close>

theorem edgeKey_injective:
  assumes "\<not> sublist ''=>'' s1" and "\<not> sublist ''=>'' t1"
    and "\<not> sublist ''=>'' s2" and "\<not> sublist ''=>'' t2"
    and "edgeKey s1 t1 = edgeKey s2 t2"
  shows "s1 = s2 \<and> t1 = t2"
proof -
  have eq: "s1 @ ''=>'' @ t1 = s2 @ ''=>'' @ t2"
    using assms(5) by (simp only: edgeKey_def)
  have "s1 = s2" using assms(1) assms(3) eq by (rule edgeKey_split)
  with eq show ?thesis by simp
qed

theorem edgeKey_injective_witness:
  "\<not> sublist ''=>'' ''thm:1'' \<and> \<not> sublist ''=>'' ''def:2''
   \<and> edgeKey ''thm:1'' ''def:2'' = ''thm:1=>def:2''
   \<and> ''thm:1'' = ''thm:1'' \<and> ''def:2'' = ''def:2''"
  using edgeKey_injective[of "''thm:1''" "''def:2''" "''thm:1''" "''def:2''"]
  by (simp add: sublist_Cons_right edgeKey_def)

section \<open>Ordering module: Roman numerals\<close>

text \<open>
  Characters are code units below 256. On these, \<^verbatim>\<open>String.prototype.toUpperCase\<close> sends
  \<^verbatim>\<open>a\<close>..\<^verbatim>\<open>z\<close> to \<^verbatim>\<open>A\<close>..\<^verbatim>\<open>Z\<close>; every other code unit is sent to something that is not an
  ASCII letter, so leaving it in place does not change which characters are Roman letters.
\<close>

definition toUpperCase_char :: "char \<Rightarrow> char" where
  "toUpperCase_char c =
     (case map_of (zip ''abcdefghijklmnopqrstuvwxyz'' ''ABCDEFGHIJKLMNOPQRSTUVWXYZ'') c of
        Some u \<Rightarrow> u
      | None \<Rightarrow> c)"

definition toUpperCase :: "string \<Rightarrow> string" where
  "toUpperCase s = map toUpperCase_char s"

text \<open>
  \<^verbatim>\<open>const map: Record<string, number> = { I: 1, V: 5, X: 10, L: 50, C: 100, D: 500, M: 1000 }\<close>
\<close>

definition roman_map :: "char \<Rightarrow> int option" where
  "roman_map c =
     (if c = CHR ''I'' then Some 1 else if c = CHR ''V'' then Some 5
      else if c = CHR ''X'' then Some 10 else if c = CHR ''L'' then Some 50
      else if c = CHR ''C'' then Some 100 else if c = CHR ''D'' then Some 500
      else if c = CHR ''M'' then Some 1000 else None)"

text \<open>
  \<^verbatim>\<open>map[s[i]] ?? 0\<close>: past the end of the string \<^verbatim>\<open>s[i]\<close> is \<^verbatim>\<open>undefined\<close>, which is no key
  of the table, so the value is 0.
\<close>

definition roman_at :: "string \<Rightarrow> nat \<Rightarrow> int" where
  "roman_at s i =
     (if i < length s then (case roman_map (s ! i) of Some v \<Rightarrow> v | None \<Rightarrow> 0) else 0)"

text \<open>
  \<^verbatim>\<open>for (let i = 0; i < s.length; i++) { cur = ...; next = ...;
         if (cur < next) out -= cur; else out += cur; }\<close>
\<close>

function romanToInt_loop :: "string \<Rightarrow> nat \<Rightarrow> int \<Rightarrow> int" where
  "romanToInt_loop s i out =
     (if i < length s
      then (let cur = roman_at s i; next = roman_at s (i + 1)
            in romanToInt_loop s (i + 1) (if cur < next then out - cur else out + cur))
      else out)"
  by pat_completeness auto
termination
  by (relation "measure (\<lambda>(s, i, out). length s - i)") auto

declare romanToInt_loop.simps [simp del]

text \<open>\<^verbatim>\<open>return out || 0\<close>\<close>

definition romanToInt :: "string \<Rightarrow> int" where
  "romanToInt roman =
     (let s = toUpperCase roman; out = romanToInt_loop s 0 0 in if out = 0 then 0 else out)"

subsection \<open>What the loop computes\<close>

text \<open>
  The subtractive reading of a sequence of letter values: a value counts negatively when
  the value after it is larger, positively otherwise. A character that is no Roman letter
  has the value 0.
\<close>

fun subtractive_sum :: "int list \<Rightarrow> int" where
  "subtractive_sum [] = 0"
| "subtractive_sum [v] = v"
| "subtractive_sum (v # w # vs) = (if v < w then - v else v) + subtractive_sum (w # vs)"

definition letter_value :: "char \<Rightarrow> int" where
  "letter_value c = (case roman_map c of Some v \<Rightarrow> v | None \<Rightarrow> 0)"

definition is_roman_letter :: "char \<Rightarrow> bool" where
  "is_roman_letter c = (roman_map (toUpperCase_char c) \<noteq> None)"

lemma roman_at_nth: "i < length s \<Longrightarrow> roman_at s i = letter_value (s ! i)"
  by (simp add: roman_at_def letter_value_def)

lemma roman_at_end: "length s \<le> i \<Longrightarrow> roman_at s i = 0"
  by (simp add: roman_at_def)

lemma letter_value_nonneg: "0 \<le> letter_value c"
  by (simp add: letter_value_def roman_map_def)

lemma subtractive_sum_drop:
  assumes "i < length s"
  shows "subtractive_sum (map letter_value (drop i s)) =
         (if roman_at s i < roman_at s (Suc i) then - roman_at s i else roman_at s i)
         + subtractive_sum (map letter_value (drop (Suc i) s))"
proof -
  have d1: "drop i s = s ! i # drop (Suc i) s"
    using assms by (simp only: Cons_nth_drop_Suc)
  have ri: "roman_at s i = letter_value (s ! i)"
    using assms by (rule roman_at_nth)
  show ?thesis
  proof (cases "Suc i < length s")
    case True
    then have d2: "drop (Suc i) s = s ! Suc i # drop (Suc (Suc i)) s"
      by (simp only: Cons_nth_drop_Suc)
    have rs: "roman_at s (Suc i) = letter_value (s ! Suc i)"
      using True by (rule roman_at_nth)
    have "subtractive_sum (map letter_value (drop i s)) =
          subtractive_sum (letter_value (s ! i) # letter_value (s ! Suc i)
                       # map letter_value (drop (Suc (Suc i)) s))"
      by (subst d1, subst d2) simp
    also have "\<dots> = (if letter_value (s ! i) < letter_value (s ! Suc i)
                       then - letter_value (s ! i) else letter_value (s ! i))
                    + subtractive_sum (map letter_value (drop (Suc i) s))"
      by (subst d2) simp
    finally show ?thesis by (simp only: ri rs)
  next
    case False
    then have d2: "drop (Suc i) s = []" by simp
    from False have r0: "roman_at s (Suc i) = 0" by (simp add: roman_at_end)
    have "0 \<le> roman_at s i" by (simp add: ri letter_value_nonneg)
    then have nlt: "\<not> roman_at s i < roman_at s (Suc i)" by (simp add: r0)
    have "subtractive_sum (map letter_value (drop i s)) = letter_value (s ! i)"
      by (subst d1) (simp add: d2)
    then show ?thesis using nlt by (simp add: d2 ri)
  qed
qed

lemma romanToInt_loop_subtractive:
  "romanToInt_loop s i out = out + subtractive_sum (map letter_value (drop i s))"
proof (induction s i out rule: romanToInt_loop.induct)
  case (1 s i out)
  show ?case
  proof (cases "i < length s")
    case True
    have "romanToInt_loop s i out =
          romanToInt_loop s (i + 1)
            (if roman_at s i < roman_at s (i + 1) then out - roman_at s i
             else out + roman_at s i)"
      using True by (subst romanToInt_loop.simps) (simp add: Let_def)
    also have "\<dots> =
          (if roman_at s i < roman_at s (i + 1) then out - roman_at s i else out + roman_at s i)
          + subtractive_sum (map letter_value (drop (i + 1) s))"
      using "1.IH"[OF True refl refl] by simp
    also have "\<dots> = out + subtractive_sum (map letter_value (drop i s))"
      using subtractive_sum_drop[OF True] by simp
    finally show ?thesis .
  next
    case False
    then show ?thesis by (subst romanToInt_loop.simps) simp
  qed
qed

lemma subtractive_sum_zeros: "\<forall>v \<in> set vs. v = 0 \<Longrightarrow> subtractive_sum vs = 0"
  by (induction vs rule: subtractive_sum.induct) auto

lemmas romanToInt_eval =
  romanToInt_def toUpperCase_def toUpperCase_char_def roman_at_def roman_map_def
  romanToInt_loop.simps

text \<open>
  Claim C9, as the code has it. \<open>romanToInt\<close> reads its argument case-insensitively and
  subtractively over I, V, X, L, C, D, M (\<open>VIII\<close> gives 8, \<open>IV\<close> gives 4): every character
  counts with its letter value, 0 when it is no Roman letter, negated when the next
  character's value is larger. Nothing is validated: an input without any Roman letter
  gives 0, any other input gives the subtractive sum of its letters.
\<close>

theorem romanToInt_subtractive:
  "romanToInt roman = subtractive_sum (map letter_value (toUpperCase roman))
   \<and> romanToInt ''VIII'' = 8 \<and> romanToInt ''IV'' = 4
   \<and> (list_all (\<lambda>c. \<not> is_roman_letter c) roman \<longrightarrow> romanToInt roman = 0)"
proof -
  have general: "romanToInt r = subtractive_sum (map letter_value (toUpperCase r))" for r
    by (simp add: romanToInt_def Let_def romanToInt_loop_subtractive)
  have e1: "romanToInt ''VIII'' = 8" by (simp add: romanToInt_eval)
  have e2: "romanToInt ''IV'' = 4" by (simp add: romanToInt_eval)
  have zero: "romanToInt roman = 0" if "list_all (\<lambda>c. \<not> is_roman_letter c) roman"
  proof -
    have "\<forall>v \<in> set (map letter_value (toUpperCase roman)). v = 0"
      using that
      by (auto simp: list_all_iff is_roman_letter_def letter_value_def toUpperCase_def)
    then show ?thesis by (simp only: general subtractive_sum_zeros)
  qed
  from general e1 e2 zero show ?thesis by blast
qed

theorem romanToInt_subtractive_witness:
  "list_all (\<lambda>c. \<not> is_roman_letter c) ''q-7'' \<and> romanToInt ''q-7'' = 0
   \<and> romanToInt ''mcmxciv'' = 1994"
  using romanToInt_subtractive[of "''q-7''"] romanToInt_subtractive[of "''mcmxciv''"]
  by (simp add: is_roman_letter_def romanToInt_eval)

text \<open>
  The claim as stated (every malformed input gives 0) fails: \<open>XQ\<close> is malformed, since \<open>Q\<close>
  is no Roman letter, and gives 10; \<open>IIII\<close> is no Roman numeral and gives 4.
\<close>

theorem romanToInt_malformed_counterexample:
  "\<not> is_roman_letter CHR ''Q'' \<and> romanToInt ''XQ'' = 10 \<and> romanToInt ''IIII'' = 4"
  by (simp add: is_roman_letter_def romanToInt_eval)

section \<open>Ordering module: label keys\<close>

text \<open>
  White space as \<^verbatim>\<open>String.prototype.trim\<close> and the regular expression class \<^verbatim>\<open>\s\<close> see it,
  and the line terminators that \<^verbatim>\<open>.\<close> does not match.
\<close>

definition is_space :: "char \<Rightarrow> bool" where
  "is_space c =
     (c \<in> set [CHR 0x09, CHR 0x0A, CHR 0x0B, CHR 0x0C, CHR 0x0D, CHR 0x20, CHR 0xA0])"

definition is_line_terminator :: "char \<Rightarrow> bool" where
  "is_line_terminator c = (c = CHR 0x0A \<or> c = CHR 0x0D)"

definition trim :: "string \<Rightarrow> string" where
  "trim s = rev (dropWhile is_space (rev (dropWhile is_space s)))"

definition is_digit :: "char \<Rightarrow> bool" where
  "is_digit c = (c \<in> set ''0123456789'')"

text \<open>
  \<^verbatim>\<open>label.trim().match(/^([IVXLCDM]+)\s*:(.*)$/i)\<close>: the longest run of Roman letters, which
  must not be empty, optional white space, a colon, and a rest without line terminator.
  Both repetitions are greedy and backtracking cannot help them, since what follows a
  shorter run is a Roman letter, respectively white space, and not what the pattern asks
  for next. The result is the pair of the groups \<^verbatim>\<open>m[1]\<close> and \<^verbatim>\<open>m[2]\<close>.
\<close>

definition match_label :: "string \<Rightarrow> (string \<times> string) option" where
  "match_label s =
     (let roman = takeWhile is_roman_letter s;
          after = dropWhile is_space (dropWhile is_roman_letter s)
      in if roman = [] then None
         else (case after of
                 [] \<Rightarrow> None
               | c # rest \<Rightarrow>
                   if c = CHR '':'' \<and> \<not> list_ex is_line_terminator rest
                   then Some (roman, rest) else None))"

text \<open>
  \<^verbatim>\<open>rest.split(/[^0-9]+/).map((x) => x.trim()).filter(Boolean).map((x) => Number(x))\<close>: the
  maximal runs of digits of \<open>rest\<close>, each read as a decimal number. The model reads the
  exact integer; the source rounds a run of more than 15 digits to a double.
\<close>

fun split_digits :: "string \<Rightarrow> string \<Rightarrow> string list" where
  "split_digits cur [] = (if cur = [] then [] else [cur])"
| "split_digits cur (c # cs) =
     (if is_digit c then split_digits (cur @ [c]) cs
      else (if cur = [] then [] else [cur]) @ split_digits [] cs)"

definition digit_value :: "char \<Rightarrow> int" where
  "digit_value c = int (of_char c) - 48"

definition Number :: "string \<Rightarrow> int" where
  "Number ds = foldl (\<lambda>n c. 10 * n + digit_value c) 0 ds"

text \<open>An element of a sort key: \<^verbatim>\<open>Array<string | number>\<close>.\<close>

datatype key_part = KNum int | KStr string

definition labelSortKey :: "string \<Rightarrow> key_part list" where
  "labelSortKey label =
     (case match_label (trim label) of
        None \<Rightarrow> [KStr (trim label)]
      | Some (roman, rest) \<Rightarrow>
          KNum (romanToInt roman) # map (KNum \<circ> Number) (split_digits [] rest))"

text \<open>\<^verbatim>\<open>String(av)\<close> of a key element; a number is written in decimal.\<close>

fun digits_of_nat :: "nat \<Rightarrow> string" where
  "digits_of_nat n =
     (if n < 10 then [char_of (48 + n)]
      else digits_of_nat (n div 10) @ [char_of (48 + n mod 10)])"

declare digits_of_nat.simps [simp del]

definition String_num :: "int \<Rightarrow> string" where
  "String_num n =
     (if n < 0 then CHR ''-'' # digits_of_nat (nat (- n)) else digits_of_nat (nat n))"

fun String_key :: "key_part \<Rightarrow> string" where
  "String_key (KNum n) = String_num n"
| "String_key (KStr s) = s"

text \<open>
  \<open>compareLex\<close> walks both arrays from index 0 to the larger length. An index past the end
  of one array reads \<^verbatim>\<open>undefined\<close>: the shorter array comes first. Two numbers are compared
  as numbers, any other pair by \<open>localeCompare\<close> of their strings, and equal elements move
  on to the next index.
\<close>

fun compareLex ::
  "(string \<Rightarrow> string \<Rightarrow> int) \<Rightarrow> key_part list \<Rightarrow> key_part list \<Rightarrow> int" where
  "compareLex localeCompare [] [] = 0"
| "compareLex localeCompare [] (bv # b) = - 1"
| "compareLex localeCompare (av # a) [] = 1"
| "compareLex localeCompare (KNum x # a) (KNum y # b) =
     (if x \<noteq> y then x - y else compareLex localeCompare a b)"
| "compareLex localeCompare (av # a) (bv # b) =
     (if String_key av \<noteq> String_key bv then localeCompare (String_key av) (String_key bv)
      else compareLex localeCompare a b)"

section \<open>Nodes and the reading order\<close>

text \<open>
  The fields of a node that the engine reads or writes; the payload (content, previews)
  is carried along untouched and left out.
\<close>

record node_position =
  line_start :: "int option"
  col_start :: "int option"

record node =
  node_id :: string
  node_type :: string
  label :: "string option"
  position :: "node_position option"
  orderIndex :: "int option"

text \<open>
  \<open>compareFirstOccurrence\<close>, branch by branch. \<open>aLine\<close> is \<^verbatim>\<open>null\<close> unless
  \<^verbatim>\<open>typeof ap?.line_start === 'number'\<close>; \<open>the\<close> is only applied under the test that the
  value is there, as the non-null assertions of the source are.
\<close>

definition compareFirstOccurrence ::
  "(string \<Rightarrow> string \<Rightarrow> int) \<Rightarrow> node \<Rightarrow> node \<Rightarrow> int" where
  "compareFirstOccurrence localeCompare a b =
     (let aLine = (case position a of None \<Rightarrow> None | Some ap \<Rightarrow> line_start ap);
          bLine = (case position b of None \<Rightarrow> None | Some bp \<Rightarrow> line_start bp);
          aCol = (case position a of None \<Rightarrow> None | Some ap \<Rightarrow> col_start ap);
          bCol = (case position b of None \<Rightarrow> None | Some bp \<Rightarrow> col_start bp);
          al = trim (case label a of None \<Rightarrow> [] | Some l \<Rightarrow> l);
          bl = trim (case label b of None \<Rightarrow> [] | Some l \<Rightarrow> l)
      in if aLine \<noteq> None \<and> bLine \<noteq> None \<and> aLine \<noteq> bLine then the aLine - the bLine
         else if aLine \<noteq> None \<and> bLine = None then - 1
         else if aLine = None \<and> bLine \<noteq> None then 1
         else if aCol \<noteq> None \<and> bCol \<noteq> None \<and> aCol \<noteq> bCol then the aCol - the bCol
         else if al \<noteq> [] \<and> bl \<noteq> []
              then compareLex localeCompare (labelSortKey al) (labelSortKey bl)
         else if al \<noteq> [] \<and> bl = [] then - 1
         else if al = [] \<and> bl \<noteq> [] then 1
         else localeCompare (node_id a) (node_id b))"

lemmas labelSortKey_eval =
  labelSortKey_def match_label_def trim_def is_space_def is_roman_letter_def
  is_line_terminator_def is_digit_def Number_def digit_value_def romanToInt_eval

lemma labelSortKey_examples:
  "labelSortKey ''VIII:3-2-3'' = [KNum 8, KNum 3, KNum 2, KNum 3]"
  "labelSortKey '' I:5-1-5 '' = [KNum 1, KNum 5, KNum 1, KNum 5]"
  "labelSortKey ''Lemma 2'' = [KStr ''Lemma 2'']"
  by (simp_all add: labelSortKey_eval)

subsection \<open>Three nodes of one line\<close>

text \<open>
  Three nodes that start on line 1 and carry the labels III:1, II:1 and I:1. The first
  starts in column 1, the third in column 2, and the second has no \<^verbatim>\<open>col_start\<close>.
\<close>

definition node_a :: node where
  "node_a = \<lparr>node_id = ''a'', node_type = ''lemma'', label = Some ''III:1'',
     position = Some \<lparr>line_start = Some 1, col_start = Some 1\<rparr>, orderIndex = None\<rparr>"

definition node_b :: node where
  "node_b = \<lparr>node_id = ''b'', node_type = ''lemma'', label = Some ''II:1'',
     position = Some \<lparr>line_start = Some 1, col_start = None\<rparr>, orderIndex = None\<rparr>"

definition node_c :: node where
  "node_c = \<lparr>node_id = ''c'', node_type = ''lemma'', label = Some ''I:1'',
     position = Some \<lparr>line_start = Some 1, col_start = Some 2\<rparr>, orderIndex = None\<rparr>"

text \<open>
  Claim C4 says that \<open>compareFirstOccurrence\<close> is a total order on every node set, in
  particular transitive. On the three nodes above it is not: \<open>node_a\<close> comes before
  \<open>node_c\<close> (column 1 before column 2), \<open>node_c\<close> comes before \<open>node_b\<close> (no column to
  compare, label I:1 before II:1), and yet \<open>node_a\<close> comes after \<open>node_b\<close> (no column to
  compare, label III:1 after II:1). The column test is skipped when one of the two columns
  is missing, where the line test above it orders a present value before a missing one.
  No collation is consulted on the way.
\<close>

theorem compareFirstOccurrence_not_transitive:
  "compareFirstOccurrence localeCompare node_a node_c = - 1
   \<and> compareFirstOccurrence localeCompare node_c node_b = - 1
   \<and> compareFirstOccurrence localeCompare node_a node_b = 1"
  by (simp add: compareFirstOccurrence_def node_a_def node_b_def node_c_def labelSortKey_eval)

text \<open>
  The other two parts of the claim hold wherever the collation is itself reflexive and
  antisymmetric: a node compares equal to itself, and \<open>a\<close> comes before \<open>b\<close> exactly when \<open>b\<close>
  comes after \<open>a\<close>.
\<close>

lemma compareLex_refl:
  assumes "\<And>x. localeCompare x x = 0"
  shows "compareLex localeCompare k k = 0"
proof (induction k)
  case Nil
  then show ?case by simp
next
  case (Cons v k)
  then show ?case by (cases v) simp_all
qed

lemma compareLex_antisym:
  assumes "\<And>x y. localeCompare x y < 0 \<longleftrightarrow> 0 < localeCompare y x"
  shows "compareLex localeCompare a b < 0 \<longleftrightarrow> 0 < compareLex localeCompare b a"
proof (induction a arbitrary: b)
  case Nil
  then show ?case by (cases b) simp_all
next
  case (Cons av a)
  show ?case
  proof (cases b)
    case Nil
    then show ?thesis by simp
  next
    case (Cons bv b')
    show ?thesis
    proof (cases av)
      case (KNum x)
      show ?thesis
      proof (cases bv)
        case (KNum y)
        with \<open>av = KNum x\<close> Cons Cons.IH[of b'] show ?thesis by auto
      next
        case (KStr t)
        with \<open>av = KNum x\<close> Cons Cons.IH[of b'] assms[of "String_num x" t] show ?thesis
          by auto
      qed
    next
      case (KStr u)
      show ?thesis
      proof (cases bv)
        case (KNum y)
        with \<open>av = KStr u\<close> Cons Cons.IH[of b'] assms[of u "String_num y"] show ?thesis
          by auto
      next
        case (KStr t)
        with \<open>av = KStr u\<close> Cons Cons.IH[of b'] assms[of u t] show ?thesis by auto
      qed
    qed
  qed
qed

lemma compareFirstOccurrence_irreflexive:
  assumes "\<And>x. localeCompare x x = 0"
  shows "compareFirstOccurrence localeCompare a a = 0"
  using assms by (simp add: compareFirstOccurrence_def Let_def compareLex_refl)

lemma compareFirstOccurrence_antisymmetric:
  assumes "\<And>x y. localeCompare x y < 0 \<longleftrightarrow> 0 < localeCompare y x"
  shows "compareFirstOccurrence localeCompare a b < 0
         \<longleftrightarrow> 0 < compareFirstOccurrence localeCompare b a"
proof -
  note lex = compareLex_antisym[of localeCompare, OF assms]
  show ?thesis
    unfolding compareFirstOccurrence_def Let_def
    using lex assms by (auto split: option.splits)
qed

lemma three_nodes_compare:
  "compareFirstOccurrence localeCompare node_a node_b = 1"
  "compareFirstOccurrence localeCompare node_b node_a = - 1"
  "compareFirstOccurrence localeCompare node_a node_c = - 1"
  "compareFirstOccurrence localeCompare node_c node_a = 1"
  "compareFirstOccurrence localeCompare node_b node_c = 1"
  "compareFirstOccurrence localeCompare node_c node_b = - 1"
  by (simp_all add: compareFirstOccurrence_def node_a_def node_b_def node_c_def labelSortKey_eval)

section \<open>Edges and their normalisation\<close>

text \<open>
  An endpoint of an edge is a node id, or the node object itself once the layout has
  resolved it; the source reads it with
  \<^verbatim>\<open>typeof e.source === 'object' ? e.source.id : e.source\<close>.
\<close>

datatype endpoint = Id string | Obj node

fun endpoint_id :: "endpoint \<Rightarrow> string" where
  "endpoint_id (Id s) = s"
| "endpoint_id (Obj n) = node_id n"

text \<open>The field \<^verbatim>\<open>type\<close> of a raw edge is \<open>edge_type\<close> here, \<^verbatim>\<open>context\<close> is \<open>edge_context\<close>.\<close>

record edge =
  source :: endpoint
  target :: endpoint
  dependency_type :: "string option"
  reference_type :: "string option"
  referenceType :: "string option"
  edge_type :: "string option"
  edge_context :: "string option"

text \<open>
  \<^verbatim>\<open>a || b\<close> on optional strings: \<^verbatim>\<open>undefined\<close>, \<^verbatim>\<open>null\<close> and the empty string are falsy.
\<close>

definition truthy :: "string option \<Rightarrow> bool" where
  "truthy v = (case v of None \<Rightarrow> False | Some s \<Rightarrow> s \<noteq> [])"

definition or_js :: "string option \<Rightarrow> string option \<Rightarrow> string option" where
  "or_js a b = (if truthy a then a else b)"

definition or_default :: "string option \<Rightarrow> string \<Rightarrow> string" where
  "or_default a d = (case a of None \<Rightarrow> d | Some s \<Rightarrow> if s = [] then d else s)"

text \<open>
  The three constants at the head of the callback:
  \<^verbatim>\<open>const dep = e.dependency_type || 'internal';\<close>
  \<^verbatim>\<open>const ref = (e as any).reference_type || (e as any).referenceType || null;\<close>
  \<^verbatim>\<open>const typ = (e as any).type || null;\<close>
\<close>

definition edge_dep :: "edge \<Rightarrow> string" where
  "edge_dep e = or_default (dependency_type e) ''internal''"

definition edge_ref :: "edge \<Rightarrow> string option" where
  "edge_ref e = or_js (or_js (reference_type e) (referenceType e)) None"

definition edge_typ :: "edge \<Rightarrow> string option" where
  "edge_typ e = or_js (edge_type e) None"

text \<open>The callback of \<^verbatim>\<open>(graphData.edges || []).map(...)\<close>; \<open>None\<close> is its \<^verbatim>\<open>null\<close>.\<close>

definition normalizeEdge :: "edge \<Rightarrow> edge option" where
  "normalizeEdge e =
     (let dep = edge_dep e; ref = edge_ref e; typ = edge_typ e
      in if dep = ''used_in'' then Some (e\<lparr>dependency_type := Some ''used_in''\<rparr>)
         else if dep = ''uses_result'' \<or> dep = ''uses_definition'' \<or> dep = ''is_corollary_of''
         then Some (e\<lparr>dependency_type := Some ''used_in'', source := target e,
                       target := source e\<rparr>)
         else if dep = ''is_generalization_of'' \<or> dep = ''generalized_by''
         then Some (e\<lparr>dependency_type := Some ''generalized_by'', source := target e,
                       target := source e\<rparr>)
         else if dep = ''internal'' \<and> (ref = Some ''internal'' \<or> typ = Some ''internal'')
         then Some (e\<lparr>dependency_type := Some ''internal'', source := target e,
                       target := source e\<rparr>)
         else if dep = ''provides_remark'' then None
         else Some e)"

text \<open>\<^verbatim>\<open>.map(...).filter(Boolean)\<close>\<close>

definition normalized_edges :: "edge list \<Rightarrow> edge list" where
  "normalized_edges es = map the (filter (\<lambda>r. r \<noteq> None) (map normalizeEdge es))"

section \<open>Sets, maps and sorting of the host language\<close>

text \<open>\<^verbatim>\<open>Set.prototype.add\<close> and \<^verbatim>\<open>new Set(array)\<close>, members in insertion order.\<close>

definition set_add :: "'a \<Rightarrow> 'a list \<Rightarrow> 'a list" where
  "set_add x xs = (if x \<in> set xs then xs else xs @ [x])"

definition Set_from :: "'a list \<Rightarrow> 'a list" where
  "Set_from xs = foldl (\<lambda>acc x. set_add x acc) [] xs"

text \<open>
  \<^verbatim>\<open>Array.prototype.sort(cmp)\<close>. The language fixes the result for a consistent comparator
  only: it is the stable sort of the array. The model is the stable insertion sort, which
  agrees with every implementation on consistent comparators; what is proved of it below
  for arbitrary comparators is that it permutes the array.
\<close>

fun insert_sorted :: "('a \<Rightarrow> 'a \<Rightarrow> int) \<Rightarrow> 'a \<Rightarrow> 'a list \<Rightarrow> 'a list" where
  "insert_sorted cmp x [] = [x]"
| "insert_sorted cmp x (y # ys) =
     (if cmp x y \<le> 0 then x # y # ys else y # insert_sorted cmp x ys)"

definition array_sort :: "('a \<Rightarrow> 'a \<Rightarrow> int) \<Rightarrow> 'a list \<Rightarrow> 'a list" where
  "array_sort cmp xs = foldr (insert_sorted cmp) xs []"

section \<open>processGraphData\<close>

record graph_data =
  gd_nodes :: "node list option"
  gd_edges :: "edge list option"

text \<open>An adjacency entry \<^verbatim>\<open>{ s, t, dep }\<close>.\<close>

record adj =
  adj_s :: string
  adj_t :: string
  adj_dep :: string

type_synonym adjacency = "(string \<times> adj list) list"

text \<open>
  \<open>ProcessedGraph\<close>, with \<open>pg_nodes\<close> and \<open>pg_edges\<close> for its fields \<^verbatim>\<open>nodes\<close> and \<^verbatim>\<open>edges\<close>.
  The two colour tables are left out: they are read off a palette of
  \<^verbatim>\<open>constellations/config\<close> and nothing below depends on them.
\<close>

record processed_graph =
  pg_nodes :: "node list"
  pg_edges :: "edge list"
  nodeTypes :: "string list"
  edgeTypes :: "string list"
  nodeById :: "(string \<times> node) list"
  outgoingEdgesBySource :: adjacency
  incomingEdgesByTarget :: adjacency

text \<open>\<^verbatim>\<open>graphData.nodes || []\<close> and \<^verbatim>\<open>graphData.edges || []\<close>\<close>

definition input_nodes :: "graph_data \<Rightarrow> node list" where
  "input_nodes g = (case gd_nodes g of None \<Rightarrow> [] | Some ns \<Rightarrow> ns)"

definition input_edges :: "graph_data \<Rightarrow> edge list" where
  "input_edges g = (case gd_edges g of None \<Rightarrow> [] | Some es \<Rightarrow> es)"

text \<open>\<^verbatim>\<open>nodes.forEach((n, i) => { (n as any).orderIndex = i + 1; })\<close>\<close>

definition assign_orderIndex :: "node list \<Rightarrow> node list" where
  "assign_orderIndex ns =
     map (\<lambda>(i, n). n\<lparr>orderIndex := Some (int i + 1)\<rparr>) (enumerate 0 ns)"

text \<open>
  The body of \<^verbatim>\<open>edges.forEach((e) => { ... })\<close>: the entry \<^verbatim>\<open>{ s, t, dep }\<close> of an edge is
  pushed onto the list of its source in one map and of its target in the other, a list
  that is created empty when the key is new. No node table is consulted.
\<close>

definition adj_of :: "edge \<Rightarrow> adj" where
  "adj_of e = \<lparr>adj_s = endpoint_id (source e), adj_t = endpoint_id (target e),
              adj_dep = edge_dep e\<rparr>"

definition push_adj :: "string \<Rightarrow> adj \<Rightarrow> adjacency \<Rightarrow> adjacency" where
  "push_adj k v m =
     (let m' = (if map_of m k = None then AList.update k [] m else m)
      in AList.update k ((case map_of m' k of None \<Rightarrow> [] | Some vs \<Rightarrow> vs) @ [v]) m')"

definition index_edge :: "edge \<Rightarrow> adjacency \<times> adjacency \<Rightarrow> adjacency \<times> adjacency" where
  "index_edge e = (\<lambda>(out, inc).
     (push_adj (adj_s (adj_of e)) (adj_of e) out, push_adj (adj_t (adj_of e)) (adj_of e) inc))"

definition processGraphData ::
  "(string \<Rightarrow> string \<Rightarrow> int) \<Rightarrow> graph_data \<Rightarrow> processed_graph" where
  "processGraphData localeCompare graphData =
     (let edges = normalized_edges (input_edges graphData);
          nodes = assign_orderIndex
                    (array_sort (compareFirstOccurrence localeCompare) (input_nodes graphData));
          idx = fold index_edge edges ([], [])
      in \<lparr>pg_nodes = nodes,
          pg_edges = edges,
          nodeTypes = Set_from (map node_type nodes),
          edgeTypes = Set_from (map edge_dep edges),
          nodeById = fold (\<lambda>n m. AList.update (node_id n) n m) nodes [],
          outgoingEdgesBySource = fst idx,
          incomingEdgesByTarget = snd idx\<rparr>)"

text \<open>What a key of an adjacency map holds, the empty list when the key is not there.\<close>

definition entries :: "adjacency \<Rightarrow> string \<Rightarrow> adj list" where
  "entries m k = (case map_of m k of None \<Rightarrow> [] | Some vs \<Rightarrow> vs)"

subsection \<open>Example data\<close>

definition raw_edge :: "string \<Rightarrow> string \<Rightarrow> string option \<Rightarrow> edge" where
  "raw_edge s t d = \<lparr>source = Id s, target = Id t, dependency_type = d, reference_type = None,
     referenceType = None, edge_type = None, edge_context = None\<rparr>"

definition plain_node :: "string \<Rightarrow> node" where
  "plain_node i = \<lparr>node_id = i, node_type = ''lemma'', label = None, position = None,
     orderIndex = None\<rparr>"


text \<open>A collation for evaluating examples: comparison by code units.\<close>

fun codeunit_compare :: "string \<Rightarrow> string \<Rightarrow> int" where
  "codeunit_compare [] [] = 0"
| "codeunit_compare [] (y # ys) = - 1"
| "codeunit_compare (x # xs) [] = 1"
| "codeunit_compare (x # xs) (y # ys) =
     (if (of_char x :: nat) < of_char y then - 1
      else if (of_char y :: nat) < of_char x then 1
      else codeunit_compare xs ys)"

subsection \<open>The normalisation table\<close>

lemma edge_dep_eq_Some:
  "edge_dep e = d \<Longrightarrow> d \<noteq> ''internal'' \<Longrightarrow> dependency_type e = Some d"
  by (auto simp: edge_dep_def or_default_def split: option.splits if_splits)

lemma update_dep_same: "dependency_type e = Some d \<Longrightarrow> e\<lparr>dependency_type := Some d\<rparr> = e"
  by (cases e) simp

lemma normalizeEdge_used_in: "edge_dep e = ''used_in'' \<Longrightarrow> normalizeEdge e = Some e"
proof -
  assume h: "edge_dep e = ''used_in''"
  then have "dependency_type e = Some ''used_in''" by (rule edge_dep_eq_Some) simp
  then have "e\<lparr>dependency_type := Some ''used_in''\<rparr> = e" by (rule update_dep_same)
  then show ?thesis using h by (simp add: normalizeEdge_def Let_def)
qed

lemma swap_update_order:
  "e\<lparr>dependency_type := Some d, source := target e, target := source e\<rparr>
     = e\<lparr>source := target e, target := source e, dependency_type := Some d\<rparr>"
  by (cases e) simp

lemmas normalize_eval =
  normalizeEdge_def edge_dep_def edge_ref_def edge_typ_def or_js_def or_default_def truthy_def
  raw_edge_def Let_def

text \<open>
  Claim C1, as the code has it. With \<open>dep\<close> the \<^verbatim>\<open>dependency_type\<close> of the raw edge, or
  \<open>internal\<close> when that is absent or empty, the first matching rule decides: \<open>used_in\<close> is
  kept as it is; \<open>uses_result\<close>, \<open>uses_definition\<close> and \<open>is_corollary_of\<close> swap source and
  target and become \<open>used_in\<close>; \<open>is_generalization_of\<close> and \<open>generalized_by\<close> swap and become
  \<open>generalized_by\<close>; \<open>internal\<close> swaps and stays \<open>internal\<close> when the reference classifier or
  \<^verbatim>\<open>type\<close> is \<open>internal\<close>, where the reference classifier is \<^verbatim>\<open>reference_type\<close> or, when that
  is absent or empty, \<^verbatim>\<open>referenceType\<close>; \<open>provides_remark\<close> is dropped; every other edge
  passes through unchanged. The normalised edge list is the list of the results that are
  not dropped, in the order of the raw edges.
\<close>

theorem normalizeEdge_table:
  "(edge_dep e = ''used_in'' \<longrightarrow> normalizeEdge e = Some e)
   \<and> (edge_dep e \<in> {''uses_result'', ''uses_definition'', ''is_corollary_of''}
        \<longrightarrow> normalizeEdge e = Some (e\<lparr>source := target e, target := source e,
                                       dependency_type := Some ''used_in''\<rparr>))
   \<and> (edge_dep e \<in> {''is_generalization_of'', ''generalized_by''}
        \<longrightarrow> normalizeEdge e = Some (e\<lparr>source := target e, target := source e,
                                       dependency_type := Some ''generalized_by''\<rparr>))
   \<and> (edge_dep e = ''internal''
        \<and> (edge_ref e = Some ''internal'' \<or> edge_typ e = Some ''internal'')
        \<longrightarrow> normalizeEdge e = Some (e\<lparr>source := target e, target := source e,
                                       dependency_type := Some ''internal''\<rparr>))
   \<and> (edge_dep e = ''provides_remark'' \<longrightarrow> normalizeEdge e = None)
   \<and> (edge_dep e \<notin> {''used_in'', ''uses_result'', ''uses_definition'', ''is_corollary_of'',
                      ''is_generalization_of'', ''generalized_by'', ''provides_remark''}
        \<and> \<not> (edge_dep e = ''internal''
              \<and> (edge_ref e = Some ''internal'' \<or> edge_typ e = Some ''internal''))
        \<longrightarrow> normalizeEdge e = Some e)
   \<and> pg_edges (processGraphData localeCompare g)
       = map the (filter (\<lambda>r. r \<noteq> None) (map normalizeEdge (input_edges g)))"
proof -
  have r1: "edge_dep e = ''used_in'' \<longrightarrow> normalizeEdge e = Some e"
    using normalizeEdge_used_in by blast
  have r2: "edge_dep e \<in> {''uses_result'', ''uses_definition'', ''is_corollary_of''}
        \<longrightarrow> normalizeEdge e = Some (e\<lparr>source := target e, target := source e,
                                       dependency_type := Some ''used_in''\<rparr>)"
    by (auto simp: normalizeEdge_def Let_def swap_update_order)
  have r3: "edge_dep e \<in> {''is_generalization_of'', ''generalized_by''}
        \<longrightarrow> normalizeEdge e = Some (e\<lparr>source := target e, target := source e,
                                       dependency_type := Some ''generalized_by''\<rparr>)"
    by (auto simp: normalizeEdge_def Let_def swap_update_order)
  have r4: "edge_dep e = ''internal''
        \<and> (edge_ref e = Some ''internal'' \<or> edge_typ e = Some ''internal'')
        \<longrightarrow> normalizeEdge e = Some (e\<lparr>source := target e, target := source e,
                                       dependency_type := Some ''internal''\<rparr>)"
    by (auto simp: normalizeEdge_def Let_def swap_update_order)
  have r5: "edge_dep e = ''provides_remark'' \<longrightarrow> normalizeEdge e = None"
    by (simp add: normalizeEdge_def Let_def)
  have r6: "edge_dep e \<notin> {''used_in'', ''uses_result'', ''uses_definition'', ''is_corollary_of'',
                      ''is_generalization_of'', ''generalized_by'', ''provides_remark''}
        \<and> \<not> (edge_dep e = ''internal''
              \<and> (edge_ref e = Some ''internal'' \<or> edge_typ e = Some ''internal''))
        \<longrightarrow> normalizeEdge e = Some e"
    by (auto simp: normalizeEdge_def Let_def)
  have r7: "pg_edges (processGraphData localeCompare g)
       = map the (filter (\<lambda>r. r \<noteq> None) (map normalizeEdge (input_edges g)))"
    by (simp add: processGraphData_def Let_def normalized_edges_def)
  from r1 r2 r3 r4 r5 r6 r7 show ?thesis by blast
qed

theorem normalizeEdge_table_witness:
  "normalizeEdge (raw_edge ''A'' ''B'' (Some ''used_in''))
     = Some (raw_edge ''A'' ''B'' (Some ''used_in''))
   \<and> normalizeEdge (raw_edge ''A'' ''B'' (Some ''uses_result''))
     = Some (raw_edge ''B'' ''A'' (Some ''used_in''))
   \<and> normalizeEdge (raw_edge ''A'' ''B'' (Some ''is_generalization_of''))
     = Some (raw_edge ''B'' ''A'' (Some ''generalized_by''))
   \<and> normalizeEdge ((raw_edge ''A'' ''B'' None)\<lparr>reference_type := Some ''internal''\<rparr>)
     = Some ((raw_edge ''B'' ''A'' (Some ''internal''))\<lparr>reference_type := Some ''internal''\<rparr>)
   \<and> normalizeEdge (raw_edge ''A'' ''B'' (Some ''provides_remark'')) = None
   \<and> normalizeEdge (raw_edge ''A'' ''B'' (Some ''cites''))
     = Some (raw_edge ''A'' ''B'' (Some ''cites''))
   \<and> normalizeEdge (raw_edge ''A'' ''B'' None) = Some (raw_edge ''A'' ''B'' None)"
  using normalizeEdge_table[of "raw_edge ''A'' ''B'' (Some ''used_in'')"]
    normalizeEdge_table[of "raw_edge ''A'' ''B'' (Some ''uses_result'')"]
    normalizeEdge_table[of "raw_edge ''A'' ''B'' (Some ''is_generalization_of'')"]
    normalizeEdge_table[of "(raw_edge ''A'' ''B'' None)\<lparr>reference_type := Some ''internal''\<rparr>"]
    normalizeEdge_table[of "raw_edge ''A'' ''B'' (Some ''provides_remark'')"]
    normalizeEdge_table[of "raw_edge ''A'' ''B'' (Some ''cites'')"]
    normalizeEdge_table[of "raw_edge ''A'' ''B'' None"]
  by (simp add: edge_dep_def edge_ref_def edge_typ_def or_js_def or_default_def truthy_def
      raw_edge_def)

text \<open>
  The claim as stated names \<^verbatim>\<open>reference_type\<close> and \<^verbatim>\<open>type\<close> only. The edge below is
  \<open>internal\<close>, has neither of the two, and carries \<^verbatim>\<open>referenceType: "internal"\<close>: by the
  stated table it passes through unchanged, the code swaps its endpoints.
\<close>

theorem normalizeEdge_referenceType_counterexample:
  "reference_type ((raw_edge ''A'' ''B'' (Some ''internal''))\<lparr>referenceType := Some ''internal''\<rparr>)
     = None
   \<and> edge_type ((raw_edge ''A'' ''B'' (Some ''internal''))\<lparr>referenceType := Some ''internal''\<rparr>)
     = None
   \<and> normalizeEdge ((raw_edge ''A'' ''B'' (Some ''internal''))\<lparr>referenceType := Some ''internal''\<rparr>)
     = Some ((raw_edge ''B'' ''A'' (Some ''internal''))\<lparr>referenceType := Some ''internal''\<rparr>)"
  by (simp add: normalize_eval)

subsection \<open>Order indices\<close>

lemma mset_insert_sorted: "mset (insert_sorted cmp x ys) = add_mset x (mset ys)"
  by (induction ys) simp_all

lemma mset_array_sort: "mset (array_sort cmp xs) = mset xs"
  unfolding array_sort_def by (induction xs) (simp_all add: mset_insert_sorted)

lemma length_array_sort: "length (array_sort cmp xs) = length xs"
  using mset_array_sort[of cmp xs] by (metis size_mset)

lemma set_array_sort: "set (array_sort cmp xs) = set xs"
  using mset_array_sort[of cmp xs] by (metis set_mset_mset)







lemmas processGraphData_eval =
  processGraphData_def Let_def input_edges_def input_nodes_def normalized_edges_def
  normalize_eval array_sort_def assign_orderIndex_def plain_node_def enumerate_eq_zip
  compareFirstOccurrence_def trim_def


text \<open>
  On the three nodes of one line the comparator is not consistent, so the language leaves
  the sorted order to the implementation. In the insertion sort of this model the order
  depends on the order in which the nodes are given; another implementation may leave yet
  another order.
\<close>

lemma reading_order_depends_on_input_order:
  "array_sort (compareFirstOccurrence localeCompare) [node_a, node_b, node_c]
     = [node_a, node_c, node_b]"
  "array_sort (compareFirstOccurrence localeCompare) [node_c, node_b, node_a]
     = [node_c, node_b, node_a]"
  by (simp_all add: array_sort_def three_nodes_compare)

subsection \<open>Adjacency\<close>



lemma index_edge_pair:
  "index_edge e (out, inc) =
     (push_adj (adj_s (adj_of e)) (adj_of e) out, push_adj (adj_t (adj_of e)) (adj_of e) inc)"
  by (simp add: index_edge_def)



subsection \<open>The incremental store\<close>




















section \<open>The graph component: proof mode and live replay\<close>

text \<open>
  The state that the actions of \<^verbatim>\<open>ConstellationsGraph.tsx\<close> read and write: the \<^verbatim>\<open>state\<close> object
  of the component and its replay state, timer reference and replay flags. Of \<^verbatim>\<open>state.refs\<close>
  the record keeps the node table, the incoming adjacency and the graph data; the selections
  of the rendering surface and every call that only paints (\<^verbatim>\<open>style\<close>, \<^verbatim>\<open>classed\<close>,
  \<^verbatim>\<open>updateVisibility\<close>, the info panel, the camera) are left out, and the surface is taken to
  be mounted. The one interval timer that ticks \<open>reveal\<close> is recorded by its period.
\<close>

datatype timer = Interval int

record replay_state =
  rs_ordered :: "node list"
  rs_edges :: "edge list"
  visibleNodes :: "string list"
  visibleEdges :: "string list"

record graph_refs =
  refs_nodeById :: "(string \<times> node) list"
  refs_incomingEdgesByTarget :: adjacency
  refs_graphData :: "graph_data option"

record component =
  pinned :: bool
  pinnedNode :: "node option"
  hiddenTypes :: "string list"
  showNodeTypeLabels :: bool
  proofMode :: bool
  proofTargetId :: "string option"
  proofDepth :: int
  proofVisibleNodes :: "string list"
  proofVisibleEdges :: "string list"
  graphData :: "graph_data option"
  refs :: graph_refs
  liveReplayRunning :: bool
  liveReplayIntervalMs :: int
  liveReplayTimerRef :: "timer option"
  liveReplayStateRef :: "replay_state option"

subsection \<open>Live replay\<close>

text \<open>
  \<open>stopLiveReplay\<close> clears the interval timer, sets \<^verbatim>\<open>liveReplayStateRef.current = null\<close> and
  \<^verbatim>\<open>setLiveReplayRunning(false)\<close>.
\<close>

definition stopLiveReplay :: "component \<Rightarrow> component" where
  "stopLiveReplay c =
     c\<lparr>liveReplayTimerRef := None, liveReplayStateRef := None, liveReplayRunning := False\<rparr>"

text \<open>
  One tick. \<^verbatim>\<open>const next = st.ordered[st.visibleNodes.size]\<close> is \<^verbatim>\<open>undefined\<close> past the end of
  the array, and then the replay stops. Otherwise the id of \<open>next\<close> is added to the visible
  nodes and every edge is scanned: \<open>reveal_edge\<close> is the body of the scan for one edge.
\<close>

definition reveal_edge :: "string list \<Rightarrow> edge \<Rightarrow> string list \<Rightarrow> string list" where
  "reveal_edge vn e ve =
     (let sId = endpoint_id (source e); tId = endpoint_id (target e)
      in if sId \<in> set vn \<and> tId \<in> set vn then set_add (edgeKey sId tId) ve else ve)"

definition reveal_edges :: "edge list \<Rightarrow> string list \<Rightarrow> string list \<Rightarrow> string list" where
  "reveal_edges es vn ve = fold (reveal_edge vn) es ve"

definition reveal :: "component \<Rightarrow> component" where
  "reveal c =
     (case liveReplayStateRef c of
        None \<Rightarrow> c
      | Some st \<Rightarrow>
          if length (visibleNodes st) < length (rs_ordered st)
          then (let next = rs_ordered st ! length (visibleNodes st);
                    vn = set_add (node_id next) (visibleNodes st);
                    ve = reveal_edges (rs_edges st) vn (visibleEdges st)
                in c\<lparr>liveReplayStateRef := Some (st\<lparr>visibleNodes := vn, visibleEdges := ve\<rparr>)\<rparr>)
          else stopLiveReplay c)"

text \<open>
  \<^verbatim>\<open>[...nodes].sort((a, b) => Number(a.orderIndex ?? 1e9) - Number(b.orderIndex ?? 1e9))\<close>
\<close>

definition by_orderIndex :: "node \<Rightarrow> node \<Rightarrow> int" where
  "by_orderIndex a b =
     (case orderIndex a of None \<Rightarrow> 1000000000 | Some i \<Rightarrow> i)
     - (case orderIndex b of None \<Rightarrow> 1000000000 | Some i \<Rightarrow> i)"

text \<open>
  \<^verbatim>\<open>state.graphData || refs.graphData\<close>, \<^verbatim>\<open>graphData?.nodes ?? []\<close> and
  \<^verbatim>\<open>graphData?.edges ?? []\<close>.
\<close>

definition replay_graphData :: "component \<Rightarrow> graph_data option" where
  "replay_graphData c = (case graphData c of Some g \<Rightarrow> Some g | None \<Rightarrow> refs_graphData (refs c))"

definition replay_nodes :: "component \<Rightarrow> node list" where
  "replay_nodes c = (case replay_graphData c of None \<Rightarrow> [] | Some g \<Rightarrow> input_nodes g)"

definition replay_edges :: "component \<Rightarrow> edge list" where
  "replay_edges c = (case replay_graphData c of None \<Rightarrow> [] | Some g \<Rightarrow> input_edges g)"

text \<open>
  \<open>startLiveReplay\<close> returns at once on a graph without nodes. Otherwise it clears a running
  timer, leaves proof mode and unpins, stores a fresh replay state with both visible sets
  empty, reveals the first node immediately and starts the timer.
\<close>

definition startLiveReplay :: "component \<Rightarrow> component" where
  "startLiveReplay c =
     (let nodes = replay_nodes c; edges = replay_edges c
      in if nodes = [] then c
         else (let c1 = c\<lparr>liveReplayTimerRef := None, liveReplayRunning := True, pinned := False,
                           pinnedNode := None, proofMode := False\<rparr>;
                   ordered = array_sort by_orderIndex nodes;
                   c2 = c1\<lparr>liveReplayStateRef :=
                             Some \<lparr>rs_ordered = ordered, rs_edges = edges,
                                    visibleNodes = [], visibleEdges = []\<rparr>\<rparr>
               in (reveal c2)\<lparr>liveReplayTimerRef := Some (Interval (liveReplayIntervalMs c))\<rparr>))"

subsection \<open>Proof mode\<close>

text \<open>
  The actions call \<^verbatim>\<open>getMaxPrereqDepth\<close> and \<^verbatim>\<open>recomputeProofSubgraph\<close> of
  \<^verbatim>\<open>constellations/proof\<close>, which is not among the sources. Both are parameters of the
  actions that call them. \<^verbatim>\<open>state.proofTargetId!\<close> is passed on as it is, absent or not.
\<close>

definition enterProofMode ::
  "(component \<Rightarrow> component) \<Rightarrow> string \<Rightarrow> component \<Rightarrow> component" where
  "enterProofMode recomputeProofSubgraph targetId c =
     recomputeProofSubgraph
       (c\<lparr>proofMode := True, proofTargetId := Some targetId, proofDepth := 1, pinned := True,
          pinnedNode := map_of (refs_nodeById (refs c)) targetId\<rparr>)"

definition exitProofMode :: "component \<Rightarrow> component" where
  "exitProofMode c =
     c\<lparr>proofMode := False, proofTargetId := None, proofVisibleNodes := [],
       proofVisibleEdges := [], pinned := False, pinnedNode := None\<rparr>"

definition unfoldLess :: "(component \<Rightarrow> component) \<Rightarrow> component \<Rightarrow> component" where
  "unfoldLess recomputeProofSubgraph c =
     (if \<not> proofMode c then c
      else recomputeProofSubgraph (c\<lparr>proofDepth := max 1 (proofDepth c - 1)\<rparr>))"

definition unfoldMore ::
  "(string option \<Rightarrow> adjacency \<Rightarrow> int) \<Rightarrow> (component \<Rightarrow> component) \<Rightarrow> component \<Rightarrow> component" where
  "unfoldMore getMaxPrereqDepth recomputeProofSubgraph c =
     (if \<not> proofMode c then c
      else (let maxDepth = getMaxPrereqDepth (proofTargetId c) (refs_incomingEdgesByTarget (refs c))
            in if maxDepth \<le> proofDepth c then c
               else recomputeProofSubgraph (c\<lparr>proofDepth := min maxDepth (proofDepth c + 1)\<rparr>)))"

subsection \<open>The helpers of proof mode\<close>

text \<open>
  Modelled from the spec: \<^verbatim>\<open>recomputeProofSubgraph\<close> and \<^verbatim>\<open>getMaxPrereqDepth\<close> of
  \<^verbatim>\<open>constellations/proof\<close> are missing from the sources. By the specification, recomputing
  starts from the target and closes it breadth first, backwards along
  \<open>incomingEdgesByTarget\<close>, for up to \<open>proofDepth\<close> hops; a node within that distance is
  visible and an edge is visible when both its endpoints are. The maximal prerequisite depth
  is the greatest hop distance that the same search reaches without the cap. The two models
  serve as instances of the parameters above.
\<close>

definition prerequisites :: "adjacency \<Rightarrow> string list \<Rightarrow> string list" where
  "prerequisites incoming frontier = concat (map (\<lambda>t. map adj_s (entries incoming t)) frontier)"

definition next_layer :: "adjacency \<Rightarrow> string list \<Rightarrow> string list \<Rightarrow> string list" where
  "next_layer incoming visited frontier =
     Set_from (filter (\<lambda>s. s \<notin> set visited) (prerequisites incoming frontier))"

fun closure_upto :: "adjacency \<Rightarrow> nat \<Rightarrow> string list \<Rightarrow> string list \<Rightarrow> string list" where
  "closure_upto incoming 0 visited frontier = visited"
| "closure_upto incoming (Suc d) visited frontier =
     (let new = next_layer incoming visited frontier
      in closure_upto incoming d (visited @ new) new)"

text \<open>
  Modelled from the spec: \<^verbatim>\<open>recomputeProofSubgraph\<close> (missing \<^verbatim>\<open>constellations/proof\<close>). It
  writes the two visible sets of the state and nothing else.
\<close>

definition spec_recomputeProofSubgraph :: "component \<Rightarrow> component" where
  "spec_recomputeProofSubgraph c =
     (case proofTargetId c of
        None \<Rightarrow> c\<lparr>proofVisibleNodes := [], proofVisibleEdges := []\<rparr>
      | Some t \<Rightarrow>
          (let incoming = refs_incomingEdgesByTarget (refs c);
               vn = closure_upto incoming (nat (proofDepth c)) [t] [t];
               ve = Set_from (map (\<lambda>a. edgeKey (adj_s a) (adj_t a))
                      (filter (\<lambda>a. adj_s a \<in> set vn \<and> adj_t a \<in> set vn)
                         (concat (map snd incoming))))
           in c\<lparr>proofVisibleNodes := vn, proofVisibleEdges := ve\<rparr>))"

text \<open>
  The uncapped search, layer by layer. It ends because every layer adds sources of edges
  that were not visited before.
\<close>

definition all_sources :: "adjacency \<Rightarrow> string set" where
  "all_sources incoming = adj_s ` set (concat (map snd incoming))"

lemma set_Set_from_aux: "set (foldl (\<lambda>acc x. set_add x acc) acc xs) = set acc \<union> set xs"
  by (induction xs arbitrary: acc) (auto simp: set_add_def)

lemma set_Set_from: "set (Set_from xs) = set xs"
  by (simp add: Set_from_def set_Set_from_aux)

lemma entries_subset: "set (entries m k) \<subseteq> set (concat (map snd m))"
proof (cases "map_of m k")
  case None
  then show ?thesis by (simp add: entries_def)
next
  case (Some vs)
  then have "(k, vs) \<in> set m" by (rule map_of_SomeD)
  then have "set vs \<subseteq> set (concat (map snd m))" by force
  with Some show ?thesis by (simp add: entries_def)
qed

lemma prerequisites_subset: "set (prerequisites incoming frontier) \<subseteq> all_sources incoming"
proof
  fix s
  assume "s \<in> set (prerequisites incoming frontier)"
  then obtain t a where "a \<in> set (entries incoming t)" and s: "s = adj_s a"
    by (auto simp: prerequisites_def)
  then have "a \<in> set (concat (map snd incoming))" using entries_subset by blast
  then show "s \<in> all_sources incoming" unfolding all_sources_def s by (rule imageI)
qed

lemma next_layer_subset:
  "set (next_layer incoming visited frontier) \<subseteq> all_sources incoming - set visited"
  using prerequisites_subset[of incoming frontier] by (auto simp: next_layer_def set_Set_from)

function max_depth_from :: "adjacency \<Rightarrow> string list \<Rightarrow> string list \<Rightarrow> nat \<Rightarrow> nat" where
  "max_depth_from incoming visited frontier d =
     (let new = next_layer incoming visited frontier
      in if new = [] then d else max_depth_from incoming (visited @ new) new (d + 1))"
  by pat_completeness auto

termination
proof (relation
    "measure (\<lambda>(incoming, visited, frontier, d). card (all_sources incoming - set visited))")
  show "wf (measure (\<lambda>(incoming, visited, frontier, d).
              card (all_sources incoming - set visited)))"
    by simp
next
  fix incoming :: adjacency and visited frontier :: "string list" and d :: nat and x
  assume x: "x = next_layer incoming visited frontier" and ne: "x \<noteq> []"
  have fin: "finite (all_sources incoming - set visited)" by (simp add: all_sources_def)
  have sub: "set x \<subseteq> all_sources incoming - set visited"
    unfolding x by (rule next_layer_subset)
  from ne obtain y where y: "y \<in> set x" by (cases x) auto
  have "all_sources incoming - set (visited @ x) \<subset> all_sources incoming - set visited"
    using sub y by auto
  then have "card (all_sources incoming - set (visited @ x))
             < card (all_sources incoming - set visited)"
    using fin by (rule psubset_card_mono[rotated])
  then show "((incoming, visited @ x, x, d + 1), (incoming, visited, frontier, d))
        \<in> measure (\<lambda>(incoming, visited, frontier, d).
                     card (all_sources incoming - set visited))"
    by simp
qed

declare max_depth_from.simps [simp del]

text \<open>
  Modelled from the spec: \<^verbatim>\<open>getMaxPrereqDepth\<close> (missing \<^verbatim>\<open>constellations/proof\<close>). An absent
  target has no prerequisites.
\<close>

definition spec_getMaxPrereqDepth :: "string option \<Rightarrow> adjacency \<Rightarrow> int" where
  "spec_getMaxPrereqDepth targetId incoming =
     (case targetId of None \<Rightarrow> 0 | Some t \<Rightarrow> int (max_depth_from incoming [t] [t] 0))"

subsection \<open>Example components\<close>

text \<open>The state of a freshly created component.\<close>

definition initial_component :: component where
  "initial_component =
     \<lparr>pinned = False, pinnedNode = None, hiddenTypes = [], showNodeTypeLabels = False,
      proofMode = False, proofTargetId = None, proofDepth = 1, proofVisibleNodes = [],
      proofVisibleEdges = [], graphData = None,
      refs = \<lparr>refs_nodeById = [], refs_incomingEdgesByTarget = [], refs_graphData = None\<rparr>,
      liveReplayRunning = False, liveReplayIntervalMs = 1050, liveReplayTimerRef = None,
      liveReplayStateRef = None\<rparr>"

text \<open>
  Modelled from the spec: \<^verbatim>\<open>applyMutations\<close> of \<^verbatim>\<open>constellations/incremental\<close> is missing from
  the sources. By the specification it republishes the processed graph to the state: the
  nodes and edges, the node table and the adjacency.
\<close>

definition publish :: "processed_graph \<Rightarrow> component \<Rightarrow> component" where
  "publish pg c =
     c\<lparr>graphData := Some \<lparr>gd_nodes = Some (pg_nodes pg), gd_edges = Some (pg_edges pg)\<rparr>,
       refs := \<lparr>refs_nodeById = nodeById pg,
                refs_incomingEdgesByTarget = incomingEdgesByTarget pg,
                refs_graphData = None\<rparr>\<rparr>"

text \<open>
  The nodes \<open>A\<close> and \<open>B\<close> with a raw \<open>uses_result\<close> edge from \<open>A\<close> to \<open>B\<close> and an edge from
  \<open>A\<close> to an id \<open>Z\<close> that is no node.
\<close>

definition sample_graph :: graph_data where
  "sample_graph =
     \<lparr>gd_nodes = Some [plain_node ''B'', plain_node ''A''],
      gd_edges = Some [raw_edge ''A'' ''B'' (Some ''uses_result''),
                       raw_edge ''A'' ''Z'' (Some ''used_in'')]\<rparr>"

definition sample_component :: component where
  "sample_component = publish (processGraphData codeunit_compare sample_graph) initial_component"

lemma sample_processed:
  "pg_nodes (processGraphData codeunit_compare sample_graph)
     = [(plain_node ''A'')\<lparr>orderIndex := Some 1\<rparr>, (plain_node ''B'')\<lparr>orderIndex := Some 2\<rparr>]"
  "pg_edges (processGraphData codeunit_compare sample_graph)
     = [raw_edge ''B'' ''A'' (Some ''used_in''), raw_edge ''A'' ''Z'' (Some ''used_in'')]"
  "incomingEdgesByTarget (processGraphData codeunit_compare sample_graph)
     = [(''A'', [\<lparr>adj_s = ''B'', adj_t = ''A'', adj_dep = ''used_in''\<rparr>]),
        (''Z'', [\<lparr>adj_s = ''A'', adj_t = ''Z'', adj_dep = ''used_in''\<rparr>])]"
  by (simp_all add: processGraphData_eval sample_graph_def index_edge_pair push_adj_def adj_of_def)

lemma sample_replay:
  "replay_nodes sample_component
     = [(plain_node ''A'')\<lparr>orderIndex := Some 1\<rparr>, (plain_node ''B'')\<lparr>orderIndex := Some 2\<rparr>]"
  "replay_edges sample_component
     = [raw_edge ''B'' ''A'' (Some ''used_in''), raw_edge ''A'' ''Z'' (Some ''used_in'')]"
  by (simp_all add: replay_nodes_def replay_edges_def replay_graphData_def sample_component_def
      publish_def initial_component_def sample_processed input_nodes_def input_edges_def)

text \<open>
  A component in proof mode on \<open>A\<close> at depth 1, where \<open>B\<close> is used in \<open>A\<close>, \<open>C\<close> is used in \<open>B\<close>
  and \<open>A\<close> is used in \<open>B\<close>.
\<close>

definition chain_incoming :: adjacency where
  "chain_incoming =
     [(''A'', [\<lparr>adj_s = ''B'', adj_t = ''A'', adj_dep = ''used_in''\<rparr>]),
      (''B'', [\<lparr>adj_s = ''C'', adj_t = ''B'', adj_dep = ''used_in''\<rparr>,
               \<lparr>adj_s = ''A'', adj_t = ''B'', adj_dep = ''used_in''\<rparr>])]"

definition chain_component :: component where
  "chain_component =
     initial_component
       \<lparr>refs := \<lparr>refs_nodeById = [], refs_incomingEdgesByTarget = chain_incoming,
                 refs_graphData = None\<rparr>,
        proofMode := True, proofTargetId := Some ''A'', proofDepth := 1\<rparr>"

subsection \<open>Proof mode: depth\<close>

lemma spec_recompute_depth: "proofDepth (spec_recomputeProofSubgraph s) = proofDepth s"
  by (simp add: spec_recomputeProofSubgraph_def Let_def split: option.splits)

text \<open>
  Claim C3. \<open>unfoldMore\<close> never leaves a smaller \<open>proofDepth\<close> than it found. In proof mode,
  when the maximal prerequisite depth of the target is at most \<open>proofDepth\<close> the call changes
  nothing; otherwise \<open>proofDepth\<close> becomes the minimum of the maximal depth and
  \<open>proofDepth + 1\<close>. This holds for every \<^verbatim>\<open>getMaxPrereqDepth\<close> and for every
  \<^verbatim>\<open>recomputeProofSubgraph\<close> that leaves \<open>proofDepth\<close> alone, as recomputing the visible sets
  does.
\<close>

theorem unfoldMore_never_shrinks:
  assumes frame: "\<And>s. proofDepth (recomputeProofSubgraph s) = proofDepth s"
  shows "proofDepth c \<le> proofDepth (unfoldMore getMaxPrereqDepth recomputeProofSubgraph c)
       \<and> (proofMode c
            \<and> getMaxPrereqDepth (proofTargetId c) (refs_incomingEdgesByTarget (refs c)) \<le> proofDepth c
          \<longrightarrow> unfoldMore getMaxPrereqDepth recomputeProofSubgraph c = c)
       \<and> (proofMode c
            \<and> proofDepth c < getMaxPrereqDepth (proofTargetId c) (refs_incomingEdgesByTarget (refs c))
          \<longrightarrow> proofDepth (unfoldMore getMaxPrereqDepth recomputeProofSubgraph c)
              = min (getMaxPrereqDepth (proofTargetId c) (refs_incomingEdgesByTarget (refs c)))
                    (proofDepth c + 1))"
  by (simp add: unfoldMore_def Let_def frame)

lemma chain_max_depth: "spec_getMaxPrereqDepth (Some ''A'') chain_incoming = 2"
  by (simp add: spec_getMaxPrereqDepth_def max_depth_from.simps next_layer_def prerequisites_def
      entries_def chain_incoming_def Set_from_def set_add_def Let_def)

theorem unfoldMore_never_shrinks_witness:
  "proofMode chain_component \<and> proofDepth chain_component = 1
   \<and> proofDepth (unfoldMore spec_getMaxPrereqDepth spec_recomputeProofSubgraph chain_component) = 2
   \<and> unfoldMore spec_getMaxPrereqDepth spec_recomputeProofSubgraph
        (chain_component\<lparr>proofDepth := 2\<rparr>) = chain_component\<lparr>proofDepth := 2\<rparr>"
  using unfoldMore_never_shrinks[of spec_recomputeProofSubgraph chain_component
      spec_getMaxPrereqDepth, OF spec_recompute_depth]
    unfoldMore_never_shrinks[of spec_recomputeProofSubgraph "chain_component\<lparr>proofDepth := 2\<rparr>"
      spec_getMaxPrereqDepth, OF spec_recompute_depth]
  by (simp add: chain_component_def initial_component_def chain_max_depth)

text \<open>
  Claim C7, as the code has it. \<open>exitProofMode\<close> clears the proof target and both visible
  sets, unpins the node and leaves proof mode, so that \<open>unfoldMore\<close> and \<open>unfoldLess\<close> do
  nothing afterwards. It does not touch \<open>proofDepth\<close>, which keeps its value.
\<close>

theorem exitProofMode_clears:
  "\<not> proofMode (exitProofMode c) \<and> proofTargetId (exitProofMode c) = None
   \<and> proofVisibleNodes (exitProofMode c) = [] \<and> proofVisibleEdges (exitProofMode c) = []
   \<and> \<not> pinned (exitProofMode c) \<and> pinnedNode (exitProofMode c) = None
   \<and> proofDepth (exitProofMode c) = proofDepth c
   \<and> unfoldMore getMaxPrereqDepth recomputeProofSubgraph (exitProofMode c) = exitProofMode c
   \<and> unfoldLess recomputeProofSubgraph (exitProofMode c) = exitProofMode c"
  by (simp add: exitProofMode_def unfoldMore_def unfoldLess_def)

text \<open>
  The claim as stated (the proof depth is cleared as well) fails on a component in proof
  mode at depth 2: after \<open>exitProofMode\<close> its \<open>proofDepth\<close> is still 2, not the initial 1.
\<close>

theorem exitProofMode_depth_counterexample:
  "proofMode (chain_component\<lparr>proofDepth := 2\<rparr>)
   \<and> proofDepth (exitProofMode (chain_component\<lparr>proofDepth := 2\<rparr>)) = 2"
  by (simp add: exitProofMode_def chain_component_def initial_component_def)

text \<open>
  The scenario of the specification: entering proof mode on \<open>A\<close> shows \<open>A\<close> and its
  prerequisite \<open>B\<close>.
\<close>

lemma spec_scenario:
  "proofVisibleNodes (enterProofMode spec_recomputeProofSubgraph ''A'' sample_component)
     = [''A'', ''B'']"
  by (simp add: enterProofMode_def spec_recomputeProofSubgraph_def sample_component_def
      publish_def initial_component_def sample_processed next_layer_def prerequisites_def
      entries_def Set_from_def set_add_def Let_def numeral_2_eq_2)

subsection \<open>Live replay: completeness\<close>

lemma set_add_new: "x \<notin> set xs \<Longrightarrow> set_add x xs = xs @ [x]"
  by (simp add: set_add_def)

lemma set_set_add: "set (set_add x xs) = insert x (set xs)"
  by (auto simp: set_add_def)

lemma reveal_edge_mono: "set ve \<subseteq> set (reveal_edge vn e ve)"
  by (auto simp: reveal_edge_def Let_def set_set_add)

lemma reveal_edges_mono: "set ve \<subseteq> set (reveal_edges es vn ve)"
proof (induction es arbitrary: ve)
  case Nil
  then show ?case by (simp add: reveal_edges_def)
next
  case (Cons x es)
  have "set ve \<subseteq> set (reveal_edge vn x ve)" by (rule reveal_edge_mono)
  also have "\<dots> \<subseteq> set (reveal_edges es vn (reveal_edge vn x ve))" by (rule Cons.IH)
  finally show ?case by (simp add: reveal_edges_def)
qed

lemma reveal_edges_complete:
  assumes "e \<in> set es" and "endpoint_id (source e) \<in> set vn" and "endpoint_id (target e) \<in> set vn"
  shows "edgeKey (endpoint_id (source e)) (endpoint_id (target e)) \<in> set (reveal_edges es vn ve)"
  using assms(1)
proof (induction es arbitrary: ve)
  case Nil
  then show ?case by simp
next
  case (Cons x es)
  have step: "reveal_edges (x # es) vn ve = reveal_edges es vn (reveal_edge vn x ve)"
    by (simp add: reveal_edges_def)
  show ?case
  proof (cases "e = x")
    case True
    have "edgeKey (endpoint_id (source e)) (endpoint_id (target e)) \<in> set (reveal_edge vn x ve)"
      using True assms(2,3) by (simp add: reveal_edge_def Let_def set_set_add)
    then show ?thesis unfolding step using reveal_edges_mono by blast
  next
    case False
    with Cons.prems have "e \<in> set es" by simp
    then show ?thesis unfolding step by (rule Cons.IH)
  qed
qed

text \<open>
  The state of a replay after \<open>k\<close> ticks: the ids of the first \<open>k\<close> nodes of the order are
  visible, and from the first tick on every edge between visible nodes has its key among
  the visible edges.
\<close>

definition replay_at :: "node list \<Rightarrow> edge list \<Rightarrow> nat \<Rightarrow> component \<Rightarrow> bool" where
  "replay_at ord es k c =
     (\<exists>st. liveReplayStateRef c = Some st \<and> rs_ordered st = ord \<and> rs_edges st = es
          \<and> visibleNodes st = map node_id (take k ord)
          \<and> (0 < k \<longrightarrow> (\<forall>e \<in> set es.
                endpoint_id (source e) \<in> set (visibleNodes st)
                \<and> endpoint_id (target e) \<in> set (visibleNodes st)
                \<longrightarrow> edgeKey (endpoint_id (source e)) (endpoint_id (target e))
                      \<in> set (visibleEdges st))))"

lemma take_Suc_ids:
  assumes "k < length ord"
  shows "map node_id (take (Suc k) ord) = map node_id (take k ord) @ [node_id (ord ! k)]"
  using assms by (simp add: take_Suc_conv_app_nth)

lemma id_not_revealed:
  assumes "distinct (map node_id ord)" and "k < length ord"
  shows "node_id (ord ! k) \<notin> set (map node_id (take k ord))"
proof
  assume "node_id (ord ! k) \<in> set (map node_id (take k ord))"
  then obtain j where j: "j < k" and eq: "node_id (ord ! j) = node_id (ord ! k)"
    using assms(2) by (auto simp: in_set_conv_nth)
  from j assms(2) have jl: "j < length (map node_id ord)" and kl: "k < length (map node_id ord)"
    and ne: "j \<noteq> k" by simp_all
  from assms(1) jl kl ne have "map node_id ord ! j \<noteq> map node_id ord ! k"
    unfolding distinct_conv_nth by blast
  with eq j assms(2) show False by simp
qed

lemma reveal_step:
  assumes at: "replay_at ord es k c" and k: "k < length ord"
    and dist: "distinct (map node_id ord)"
  shows "replay_at ord es (Suc k) (reveal c)"
proof -
  from at obtain st where st: "liveReplayStateRef c = Some st" "rs_ordered st = ord"
      "rs_edges st = es" "visibleNodes st = map node_id (take k ord)"
    unfolding replay_at_def by blast
  have len: "length (visibleNodes st) = k" using st(4) k by simp
  let ?vn = "set_add (node_id (ord ! k)) (visibleNodes st)"
  let ?ve = "reveal_edges es ?vn (visibleEdges st)"
  let ?st' = "st\<lparr>visibleNodes := ?vn, visibleEdges := ?ve\<rparr>"
  have rv: "reveal c = c\<lparr>liveReplayStateRef := Some ?st'\<rparr>"
    using st k len by (simp add: reveal_def Let_def)
  have vn: "?vn = map node_id (take (Suc k) ord)"
    using id_not_revealed[OF dist k] k by (simp add: st(4) set_add_new take_Suc_ids)
  have complete: "\<forall>e \<in> set es.
        endpoint_id (source e) \<in> set ?vn \<and> endpoint_id (target e) \<in> set ?vn
        \<longrightarrow> edgeKey (endpoint_id (source e)) (endpoint_id (target e)) \<in> set ?ve"
    using reveal_edges_complete by blast
  show ?thesis
    unfolding replay_at_def
  proof (intro exI conjI)
    show "liveReplayStateRef (reveal c) = Some ?st'" by (simp add: rv)
    show "rs_ordered ?st' = ord" by (simp add: st(2))
    show "rs_edges ?st' = es" by (simp add: st(3))
    show "visibleNodes ?st' = map node_id (take (Suc k) ord)" using vn by simp
    show "0 < Suc k \<longrightarrow> (\<forall>e \<in> set es.
            endpoint_id (source e) \<in> set (visibleNodes ?st')
            \<and> endpoint_id (target e) \<in> set (visibleNodes ?st')
            \<longrightarrow> edgeKey (endpoint_id (source e)) (endpoint_id (target e))
                  \<in> set (visibleEdges ?st'))"
      using complete by simp
  qed
qed

lemma reveal_steps:
  assumes dist: "distinct (map node_id ord)"
  shows "replay_at ord es k c \<Longrightarrow> k + n \<le> length ord
         \<Longrightarrow> replay_at ord es (k + n) ((reveal ^^ n) c)"
proof (induction n)
  case 0
  then show ?case by simp
next
  case (Suc n)
  then have "replay_at ord es (k + n) ((reveal ^^ n) c)" by simp
  moreover from Suc.prems have "k + n < length ord" by simp
  ultimately have "replay_at ord es (Suc (k + n)) (reveal ((reveal ^^ n) c))"
    using dist by (rule reveal_step)
  then show ?case by simp
qed

lemma replay_at_timer:
  "replay_at ord es k (c\<lparr>liveReplayTimerRef := t\<rparr>) = replay_at ord es k c"
  by (simp add: replay_at_def)

lemma distinct_ids_array_sort:
  "distinct (map node_id (array_sort cmp ns)) = distinct (map node_id ns)"
proof -
  have "mset (map node_id (array_sort cmp ns)) = mset (map node_id ns)"
    by (simp only: mset_map mset_array_sort)
  then show ?thesis by (rule mset_eq_imp_distinct_iff)
qed

text \<open>
  Claim C2. On a graph with \<open>N\<close> nodes of pairwise different ids, \<open>N\<close> ticks after a start
  from empty visible sets the visible nodes are the ids of all nodes, and the visible edges
  contain the key of every edge whose two endpoints are ids of nodes. \<open>startLiveReplay\<close>
  makes the first tick itself, so \<open>N\<close> ticks are \<open>startLiveReplay\<close> and \<open>N - 1\<close> ticks of the
  timer; on a graph without nodes no replay starts. The ids must differ, as the data model
  has it, because the cursor of the replay is the size of the set of visible ids.
\<close>

theorem replay_completeness:
  assumes nonempty: "replay_nodes c \<noteq> []"
    and dist: "distinct (map node_id (replay_nodes c))"
  shows "\<exists>st. liveReplayStateRef ((reveal ^^ (length (replay_nodes c) - 1)) (startLiveReplay c))
               = Some st
           \<and> set (visibleNodes st) = set (map node_id (replay_nodes c))
           \<and> (\<forall>e \<in> set (replay_edges c).
                 endpoint_id (source e) \<in> set (map node_id (replay_nodes c))
                 \<and> endpoint_id (target e) \<in> set (map node_id (replay_nodes c))
                 \<longrightarrow> edgeKey (endpoint_id (source e)) (endpoint_id (target e))
                       \<in> set (visibleEdges st))"
proof -
  let ?nodes = "replay_nodes c" and ?es = "replay_edges c"
  let ?ord = "array_sort by_orderIndex ?nodes"
  let ?c1 = "c\<lparr>liveReplayTimerRef := None, liveReplayRunning := True, pinned := False,
                pinnedNode := None, proofMode := False\<rparr>"
  let ?c2 = "?c1\<lparr>liveReplayStateRef :=
                  Some \<lparr>rs_ordered = ?ord, rs_edges = ?es, visibleNodes = [], visibleEdges = []\<rparr>\<rparr>"
  let ?N = "length ?nodes"
  have len: "length ?ord = ?N" by (rule length_array_sort)
  have N: "0 < ?N" using nonempty by simp
  have dord: "distinct (map node_id ?ord)" using dist by (simp only: distinct_ids_array_sort)
  have start: "startLiveReplay c
        = (reveal ?c2)\<lparr>liveReplayTimerRef := Some (Interval (liveReplayIntervalMs c))\<rparr>"
    using nonempty by (simp add: startLiveReplay_def Let_def)
  have "replay_at ?ord ?es 0 ?c2" by (simp add: replay_at_def)
  moreover have "0 < length ?ord" using N len by simp
  ultimately have "replay_at ?ord ?es (Suc 0) (reveal ?c2)" using dord by (rule reveal_step)
  then have "replay_at ?ord ?es (Suc 0) (startLiveReplay c)"
    by (simp only: start replay_at_timer)
  moreover have "Suc 0 + (?N - 1) \<le> length ?ord" using N len by simp
  ultimately have "replay_at ?ord ?es (Suc 0 + (?N - 1)) ((reveal ^^ (?N - 1)) (startLiveReplay c))"
    by (rule reveal_steps[OF dord])
  then have "replay_at ?ord ?es ?N ((reveal ^^ (?N - 1)) (startLiveReplay c))"
    using N by simp
  then obtain st where st: "liveReplayStateRef ((reveal ^^ (?N - 1)) (startLiveReplay c)) = Some st"
    and vn: "visibleNodes st = map node_id (take ?N ?ord)"
    and ve: "\<forall>e \<in> set ?es.
                endpoint_id (source e) \<in> set (visibleNodes st)
                \<and> endpoint_id (target e) \<in> set (visibleNodes st)
                \<longrightarrow> edgeKey (endpoint_id (source e)) (endpoint_id (target e))
                      \<in> set (visibleEdges st)"
    using N unfolding replay_at_def by auto
  have ids: "set (visibleNodes st) = set (map node_id ?nodes)"
    using vn len by (simp add: set_array_sort)
  show ?thesis
  proof (intro exI conjI)
    show "liveReplayStateRef ((reveal ^^ (?N - 1)) (startLiveReplay c)) = Some st" by (rule st)
    show "set (visibleNodes st) = set (map node_id ?nodes)" by (rule ids)
    show "\<forall>e \<in> set ?es.
            endpoint_id (source e) \<in> set (map node_id ?nodes)
            \<and> endpoint_id (target e) \<in> set (map node_id ?nodes)
            \<longrightarrow> edgeKey (endpoint_id (source e)) (endpoint_id (target e))
                  \<in> set (visibleEdges st)"
      using ve unfolding ids .
  qed
qed

lemmas replay_eval =
  startLiveReplay_def reveal_def reveal_edges_def reveal_edge_def set_add_def Let_def
  array_sort_def by_orderIndex_def plain_node_def raw_edge_def edgeKey_def stopLiveReplay_def

lemma sample_start:
  "liveReplayStateRef (startLiveReplay sample_component)
     = Some \<lparr>rs_ordered = replay_nodes sample_component, rs_edges = replay_edges sample_component,
             visibleNodes = [''A''], visibleEdges = []\<rparr>"
  by (simp add: sample_replay replay_eval)

lemma sample_second_tick:
  "liveReplayStateRef (reveal (startLiveReplay sample_component))
     = Some \<lparr>rs_ordered = replay_nodes sample_component, rs_edges = replay_edges sample_component,
             visibleNodes = [''A'', ''B''], visibleEdges = [''B=>A'']\<rparr>"
  by (simp add: sample_replay replay_eval)

theorem replay_completeness_witness:
  "replay_nodes sample_component \<noteq> []
   \<and> distinct (map node_id (replay_nodes sample_component))
   \<and> map_option visibleNodes (liveReplayStateRef (reveal (startLiveReplay sample_component)))
       = Some [''A'', ''B'']
   \<and> map_option visibleEdges (liveReplayStateRef (reveal (startLiveReplay sample_component)))
       = Some [''B=>A'']"
proof -
  have ne: "replay_nodes sample_component \<noteq> []" by (simp add: sample_replay)
  have d: "distinct (map node_id (replay_nodes sample_component))"
    by (simp add: sample_replay plain_node_def)
  from replay_completeness[OF ne d] ne d show ?thesis by (simp add: sample_second_tick)
qed

subsection \<open>Live replay: stopping\<close>

text \<open>
  Claim C8, as the code has it. \<open>stopLiveReplay\<close> halts the timer and marks the replay as
  not running, and it discards the replay state, and with it the visible nodes and edges
  revealed so far: \<^verbatim>\<open>liveReplayStateRef.current\<close> is \<^verbatim>\<open>null\<close> afterwards and a further tick
  does nothing. The graph data and the proof mode are left as they were.
\<close>

theorem stopLiveReplay_discards:
  "liveReplayTimerRef (stopLiveReplay c) = None
   \<and> liveReplayStateRef (stopLiveReplay c) = None
   \<and> \<not> liveReplayRunning (stopLiveReplay c)
   \<and> reveal (stopLiveReplay c) = stopLiveReplay c
   \<and> graphData (stopLiveReplay c) = graphData c
   \<and> proofMode (stopLiveReplay c) = proofMode c"
  by (simp add: stopLiveReplay_def reveal_def)

text \<open>
  The claim as stated (the revealed sets survive the stop) fails on the sample component:
  after the start its replay state shows the node \<open>A\<close>, and after \<open>stopLiveReplay\<close> there is
  no replay state left to inspect.
\<close>

theorem stopLiveReplay_discards_counterexample:
  "map_option visibleNodes (liveReplayStateRef (startLiveReplay sample_component)) = Some [''A'']
   \<and> liveReplayStateRef (stopLiveReplay (startLiveReplay sample_component)) = None"
  by (simp add: sample_start stopLiveReplay_def)

end
